theory Spec2Isabelle
  imports Main "HOL-Library.Word"
begin

unbundle bit_operations_syntax

section \<open>The USB streaming test orchestrator (stream\_test.cc)\<close>

text \<open>
  A shallow embedding of \<^verbatim>\<open>RunTest\<close> of
  \<^verbatim>\<open>sw/host/tests/usbdev/usbdev_stream/stream_test.cc\<close>. The function reads a test
  descriptor from the device, derives the number of streams and the transfer type of each,
  opens the streams, and then polls the device and the streams in one cooperative loop
  until every stream has completed its work.

  The device handle and the streams are external collaborators (their classes are declared
  in headers that are not part of the sources at hand). They are modelled as operations on
  one abstract world \<open>'w\<close>, so that a call on one collaborator may change what another one
  reports afterwards. Every call \<^verbatim>\<open>RunTest\<close> makes on a collaborator is appended
  to a trace of events, in program order.
\<close>

subsection \<open>Data\<close>

type_synonym u8 = "8 word"
type_synonym u32 = "32 word"
type_synonym u64 = "64 word"

text \<open>
  Modelled from the spec: the enumeration \<^verbatim>\<open>USBDevStream::StreamType\<close> is declared in a
  header that is not among the sources; the specification gives the stream types Control,
  Isochronous, Bulk, Interrupt and Serial, which are the enumerators \<^verbatim>\<open>RunTest\<close> uses.
\<close>

datatype StreamType =
    StreamType_Serial
  | StreamType_Bulk
  | StreamType_Isochronous
  | StreamType_Interrupt
  | StreamType_Control

text \<open>
  Modelled from the spec: the enumeration of the device states is declared in
  \<^verbatim>\<open>usb_device.h\<close>, which is not among the sources; the specification gives the four
  states Streaming, Suspending, Suspended and Resuming, which are the four case labels of
  the main loop.
\<close>

datatype DevState = StateStreaming | StateSuspending | StateSuspended | StateResuming

text \<open>
  The enumerators \<^verbatim>\<open>USBDevice::kUsbTestNumberStreams\<close>, \<^verbatim>\<open>kUsbTestNumberIso\<close>
  and \<^verbatim>\<open>kUsbTestNumberMixed\<close> are declared in \<^verbatim>\<open>usb_device.h\<close>; their values are
  parameters of the model. As labels of one \<^verbatim>\<open>switch\<close> they are pairwise distinct.
\<close>

record TestNumbers =
  kUsbTestNumberStreams :: int
  kUsbTestNumberIso :: int
  kUsbTestNumberMixed :: int

definition distinct_labels :: "TestNumbers \<Rightarrow> bool" where
  "distinct_labels tn =
     distinct [kUsbTestNumberStreams tn, kUsbTestNumberIso tn, kUsbTestNumberMixed tn]"

text \<open>The fields of the global \<^verbatim>\<open>TestConfig cfg\<close> that \<^verbatim>\<open>RunTest\<close> reads.\<close>

record TestConfig =
  verbose :: bool
  retrieve :: bool
  check :: bool
  send :: bool
  serial :: bool
  suspending :: bool

text \<open>
  What ends \<^verbatim>\<open>RunTest\<close> other than a \<^verbatim>\<open>return\<close>: the failed \<^verbatim>\<open>assert\<close> of the
  stream-opening switch (assertions are taken to be compiled in), an unsigned division by
  zero and a signed 32-bit overflow, both undefined in C++.
\<close>

datatype fault = AssertionFailed | DivideByZero | SignedOverflow

subsection \<open>The test descriptor: stream count and transfer size\<close>

definition kTransferBytes :: u32 where
  "kTransferBytes = push_bit 20 0x10"

text \<open>
  Lines 191-204. \<^verbatim>\<open>testNum\<close> is promoted to \<^verbatim>\<open>int\<close> by the \<^verbatim>\<open>switch\<close>;
  \<^verbatim>\<open>testArg[0] & 0xfU\<close> is computed in \<^verbatim>\<open>unsigned\<close>.
\<close>

definition nstreams_of :: "TestNumbers \<Rightarrow> u8 \<Rightarrow> (nat \<Rightarrow> u8) \<Rightarrow> u32" where
  "nstreams_of tn testNum testArg =
     (if uint testNum = kUsbTestNumberStreams tn
         \<or> uint testNum = kUsbTestNumberIso tn
         \<or> uint testNum = kUsbTestNumberMixed tn
      then ucast (testArg 0) AND 0xf
      else 2)"

text \<open>
  Lines 207-208: \<^verbatim>\<open>(transfer_bytes + nstreams - 1) / nstreams\<close> in 32-bit unsigned
  arithmetic. The source divides without a test of the divisor.
\<close>

definition transfer_bytes_of :: "u32 \<Rightarrow> fault + u32" where
  "transfer_bytes_of nstreams =
     (if nstreams = 0 then Inl DivideByZero
      else Inr ((kTransferBytes + nstreams - 1) div nstreams))"

subsection \<open>The test descriptor: transfer type of each stream\<close>

text \<open>Line 237-238: the three argument bytes, promoted and assembled.\<close>

definition mixedTypes_of :: "(nat \<Rightarrow> u8) \<Rightarrow> u32" where
  "mixedTypes_of testArg =
     push_bit 16 (ucast (testArg 3)) OR push_bit 8 (ucast (testArg 2)) OR ucast (testArg 1)"

text \<open>Lines 241-254: the inner \<^verbatim>\<open>switch\<close> on \<^verbatim>\<open>(mixedTypes >> (idx * 2)) & 3U\<close>.\<close>

definition mixed_stream_type :: "u32 \<Rightarrow> nat \<Rightarrow> StreamType" where
  "mixed_stream_type mixedTypes idx =
     (let code = drop_bit (idx * 2) mixedTypes AND 3
      in if code = 0 then StreamType_Control
         else if code = 1 then StreamType_Isochronous
         else if code = 2 then StreamType_Bulk
         else StreamType_Interrupt)"

text \<open>Lines 218-260: the outer \<^verbatim>\<open>switch (testNum)\<close>, its cases in source order.\<close>

definition stream_type_of ::
  "TestNumbers \<Rightarrow> TestConfig \<Rightarrow> u8 \<Rightarrow> (nat \<Rightarrow> u8) \<Rightarrow> nat \<Rightarrow> StreamType" where
  "stream_type_of tn cfg testNum testArg idx =
     (if uint testNum = kUsbTestNumberStreams tn then
        (if serial cfg \<and> \<not> suspending cfg then StreamType_Serial else StreamType_Bulk)
      else if uint testNum = kUsbTestNumberIso tn then StreamType_Isochronous
      else if uint testNum = kUsbTestNumberMixed tn then
        mixed_stream_type (mixedTypes_of testArg) idx
      else StreamType_Bulk)"

text \<open>
  The decoding in the words of the specification: the 24-bit value
  \<open>(testArgs[3]<<16)|(testArgs[2]<<8)|testArgs[1]\<close> as a number, its base-4 digit at
  position \<open>i\<close>, and the mapping \<open>0\<rightarrow>Control, 1\<rightarrow>Isochronous, 2\<rightarrow>Bulk, 3\<rightarrow>Interrupt\<close>.
\<close>

definition spec_mixed_field :: "(nat \<Rightarrow> u8) \<Rightarrow> nat" where
  "spec_mixed_field testArgs =
     unat (testArgs 3) * 2 ^ 16 + unat (testArgs 2) * 2 ^ 8 + unat (testArgs 1)"

definition spec_type_of_code :: "nat \<Rightarrow> StreamType" where
  "spec_type_of_code c =
     (if c = 0 then StreamType_Control
      else if c = 1 then StreamType_Isochronous
      else if c = 2 then StreamType_Bulk
      else StreamType_Interrupt)"

definition spec_mixed_type :: "(nat \<Rightarrow> u8) \<Rightarrow> nat \<Rightarrow> StreamType" where
  "spec_mixed_type testArgs i = spec_type_of_code ((spec_mixed_field testArgs div 4 ^ i) mod 4)"

subsection \<open>Collaborators and events\<close>

text \<open>
  The member functions of \<^verbatim>\<open>USBDevice\<close> (prefix \<open>dev_\<close>) and of the stream classes
  that \<^verbatim>\<open>RunTest\<close> calls, and the two clock functions \<^verbatim>\<open>time_us\<close> and
  \<^verbatim>\<open>elapsed_time\<close> of \<^verbatim>\<open>usbdev_utils.h\<close>. A stream is addressed by its index
  in the global array \<^verbatim>\<open>streams\<close>. \<open>OpenSerial\<close> stands for
  \<^verbatim>\<open>new USBDevSerial(idx, transfer_bytes, ...)\<close> followed by \<^verbatim>\<open>Open(in_port, out_port)\<close>,
  \<open>OpenInt\<close> for \<^verbatim>\<open>new USBDevInt(dev, bulk, idx, transfer_bytes, ...)\<close> followed by
  \<^verbatim>\<open>Open(idx)\<close>; \<open>Delete\<close> is \<^verbatim>\<open>delete streams[idx]\<close>. The port names of the serial
  streams do not influence the control flow and are left to the collaborator.
\<close>

record 'w Collaborators =
  dev_TestNumber :: "'w \<Rightarrow> u8"
  dev_TestArg :: "nat \<Rightarrow> 'w \<Rightarrow> u8"
  dev_CurrentState :: "'w \<Rightarrow> DevState"
  dev_SetState :: "DevState \<Rightarrow> 'w \<Rightarrow> 'w"
  dev_Suspend :: "'w \<Rightarrow> 'w"
  dev_Resume :: "'w \<Rightarrow> 'w"
  dev_Service :: "'w \<Rightarrow> bool \<times> 'w"
  OpenSerial :: "nat \<Rightarrow> u32 \<Rightarrow> 'w \<Rightarrow> bool \<times> 'w"
  OpenInt :: "bool \<Rightarrow> nat \<Rightarrow> u32 \<Rightarrow> 'w \<Rightarrow> bool \<times> 'w"
  Delete :: "nat \<Rightarrow> 'w \<Rightarrow> 'w"
  Service :: "nat \<Rightarrow> 'w \<Rightarrow> bool \<times> 'w"
  Pause :: "nat \<Rightarrow> 'w \<Rightarrow> 'w"
  Resume :: "nat \<Rightarrow> 'w \<Rightarrow> 'w"
  Stop :: "nat \<Rightarrow> 'w \<Rightarrow> bool \<times> 'w"
  Completed :: "nat \<Rightarrow> 'w \<Rightarrow> bool"
  TransferBytes :: "nat \<Rightarrow> 'w \<Rightarrow> u32"
  BytesRecvd :: "nat \<Rightarrow> 'w \<Rightarrow> u32"
  BytesSent :: "nat \<Rightarrow> 'w \<Rightarrow> u32"
  time_us :: "'w \<Rightarrow> u64 \<times> 'w"
  elapsed_time :: "u64 \<Rightarrow> 'w \<Rightarrow> u64 \<times> 'w"

text \<open>
  One event per call, with the value the call returned where the caller looks at it.
  \<open>EvProgress\<close> is the progress line written to the standard output, with the two
  numbers it prints.
\<close>

datatype event =
    EvCurrentState DevState
  | EvSetState DevState
  | EvSuspend
  | EvDevResume
  | EvDevService bool
  | EvOpen StreamType nat bool
  | EvDelete nat
  | EvService nat bool
  | EvCompleted nat bool
  | EvPause nat
  | EvResume nat
  | EvStop nat
  | EvProgress u32 u32

subsection \<open>Opening the streams\<close>

datatype open_step = Opened | NotOpened | Asserted

text \<open>
  Lines 265-308: the \<^verbatim>\<open>switch (streamType)\<close>. The cases for Interrupt and Bulk exist
  only when \<^verbatim>\<open>STREAMTEST_LIBUSB\<close> is set (first parameter); Interrupt falls through to
  Bulk with \<^verbatim>\<open>bulk = false\<close>. Every other type reaches \<^verbatim>\<open>default\<close>.
\<close>

definition open_stream ::
  "bool \<Rightarrow> 'w Collaborators \<Rightarrow> StreamType \<Rightarrow> nat \<Rightarrow> u32 \<Rightarrow> 'w \<Rightarrow> open_step \<times> 'w \<times> event list" where
  "open_stream STREAMTEST_LIBUSB env streamType idx transfer_bytes w =
     (case streamType of
        StreamType_Serial \<Rightarrow>
          (let (opened, w') = OpenSerial env idx transfer_bytes w
           in (if opened then Opened else NotOpened, w', [EvOpen StreamType_Serial idx opened]))
      | StreamType_Interrupt \<Rightarrow>
          (if STREAMTEST_LIBUSB then
             (let (opened, w') = OpenInt env False idx transfer_bytes w
              in (if opened then Opened else NotOpened, w',
                  [EvOpen StreamType_Interrupt idx opened]))
           else (Asserted, w, []))
      | StreamType_Bulk \<Rightarrow>
          (if STREAMTEST_LIBUSB then
             (let (opened, w') = OpenInt env True idx transfer_bytes w
              in (if opened then Opened else NotOpened, w', [EvOpen StreamType_Bulk idx opened]))
           else (Asserted, w, []))
      | StreamType_Isochronous \<Rightarrow> (Asserted, w, [])
      | StreamType_Control \<Rightarrow> (Asserted, w, []))"

text \<open>
  Lines 312-317: \<^verbatim>\<open>if (idx > 0U) do { idx--; delete streams[idx]; } while (idx > 0U);\<close>
\<close>

primrec rollback :: "'w Collaborators \<Rightarrow> nat \<Rightarrow> 'w \<Rightarrow> 'w \<times> event list" where
  "rollback env 0 w = (w, [])"
| "rollback env (Suc idx) w =
     (let (w', tr) = rollback env idx (Delete env idx w) in (w', EvDelete idx # tr))"

datatype opening_outcome = AllOpened | OpenFailed | AssertFailed

text \<open>
  Lines 215-320: the loop over \<^verbatim>\<open>idx\<close>, here over the list of indices that remain.
  \<open>streamType\<close> gives the type the descriptor assigns to an index.
\<close>

fun open_streams ::
  "bool \<Rightarrow> 'w Collaborators \<Rightarrow> (nat \<Rightarrow> StreamType) \<Rightarrow> u32 \<Rightarrow> nat list \<Rightarrow> 'w
     \<Rightarrow> opening_outcome \<times> 'w \<times> event list" where
  "open_streams libusb env streamType transfer_bytes [] w = (AllOpened, w, [])"
| "open_streams libusb env streamType transfer_bytes (idx # rest) w =
     (case open_stream libusb env (streamType idx) idx transfer_bytes w of
        (Opened, w1, tr) \<Rightarrow>
          (case open_streams libusb env streamType transfer_bytes rest w1 of
             (r, w2, tr') \<Rightarrow> (r, w2, tr @ tr'))
      | (NotOpened, w1, tr) \<Rightarrow>
          (case rollback env idx w1 of (w2, tr') \<Rightarrow> (OpenFailed, w2, tr @ tr'))
      | (Asserted, w1, tr) \<Rightarrow> (AssertFailed, w1, tr))"

text \<open>
  The streams that are open after a trace: opened with success and not deleted since.
\<close>

fun open_after :: "event list \<Rightarrow> nat set \<Rightarrow> nat set" where
  "open_after [] S = S"
| "open_after (EvOpen ty idx True # tr) S = open_after tr (insert idx S)"
| "open_after (EvDelete idx # tr) S = open_after tr (S - {idx})"
| "open_after (e # tr) S = open_after tr S"

subsection \<open>One iteration of the main loop\<close>

definition kRunInterval :: u64 where "kRunInterval = 5 * 1000000"
definition kSuspendingInterval :: u64 where "kSuspendingInterval = 5 * 1000"
definition kSuspendedInterval :: u64 where "kSuspendedInterval = 5 * 1000000"
definition kResumeInterval :: u64 where "kResumeInterval = 30 * 1000"

text \<open>The locals of the loop body that are reset in every iteration.\<close>

record totals =
  total_bytes :: u32
  total_recv :: u32
  total_sent :: u32
  failed :: bool
  done_flag :: bool

text \<open>What the loop carries from one iteration to the next.\<close>

record 'w loop_state =
  world :: 'w
  start_time :: u64
  prev_bytes :: u32

text \<open>
  Lines 351-359: the running totals (32-bit, wrapping) and the question whether the
  stream has completed, for a stream that has just been serviced.
\<close>

definition update_totals :: "'w Collaborators \<Rightarrow> nat \<Rightarrow> 'w \<Rightarrow> totals \<Rightarrow> totals" where
  "update_totals env idx w t =
     (let t1 = t\<lparr>total_bytes := total_bytes t + TransferBytes env idx w,
                 total_recv := total_recv t + BytesRecvd env idx w,
                 total_sent := total_sent t + BytesSent env idx w\<rparr>
      in if \<not> Completed env idx w then t1\<lparr>done_flag := False\<rparr> else t1)"

text \<open>
  Lines 344-360: the servicing loop. A failed \<^verbatim>\<open>Service\<close> sets \<^verbatim>\<open>failed\<close> and leaves
  the loop; otherwise the totals are updated and \<^verbatim>\<open>Completed\<close> is asked.
\<close>

fun service_streams ::
  "'w Collaborators \<Rightarrow> nat list \<Rightarrow> totals \<Rightarrow> 'w \<Rightarrow> totals \<times> 'w \<times> event list" where
  "service_streams env [] t w = (t, w, [])"
| "service_streams env (idx # rest) t w =
     (case Service env idx w of
        (ok, w1) \<Rightarrow>
          if \<not> ok then (t\<lparr>failed := True\<rparr>, w1, [EvService idx False])
          else
            (case service_streams env rest (update_totals env idx w1 t) w1 of
               (t3, w3, tr) \<Rightarrow>
                 (t3, w3, EvService idx True # EvCompleted idx (Completed env idx w1) # tr)))"

definition initial_totals :: "bool \<Rightarrow> totals" where
  "initial_totals d =
     \<lparr>total_bytes = 0, total_recv = 0, total_sent = 0, failed = False, done_flag = d\<rparr>"

text \<open>Lines 342-395: \<^verbatim>\<open>case USBDevice::StateStreaming\<close>, with the live branch of \<^verbatim>\<open>if (true)\<close>.\<close>

definition streaming_case ::
  "'w Collaborators \<Rightarrow> TestConfig \<Rightarrow> nat \<Rightarrow> 'w loop_state
     \<Rightarrow> totals \<times> 'w loop_state \<times> event list" where
  "streaming_case env cfg nstreams ls =
     (case service_streams env [0..<nstreams] (initial_totals True) (world ls) of
        (t, w1, tr1) \<Rightarrow>
          if suspending cfg then
            (case elapsed_time env (start_time ls) w1 of
               (el, w2) \<Rightarrow>
                 if kRunInterval \<le> el then
                   (let w3 = fold (Pause env) [0..<nstreams] w2;
                        w4 = dev_Suspend env w3;
                        (now, w5) = time_us env w4
                    in (t, ls\<lparr>world := w5, start_time := now\<rparr>,
                        tr1 @ map EvPause [0..<nstreams] @ [EvSuspend]))
                 else (t, ls\<lparr>world := w2\<rparr>, tr1))
          else (t, ls\<lparr>world := w1\<rparr>, tr1))"

text \<open>Lines 398-405.\<close>

definition suspending_case ::
  "'w Collaborators \<Rightarrow> 'w loop_state \<Rightarrow> totals \<times> 'w loop_state \<times> event list" where
  "suspending_case env ls =
     (case elapsed_time env (start_time ls) (world ls) of
        (el, w1) \<Rightarrow>
          if kSuspendingInterval \<le> el then
            (let w2 = dev_SetState env StateSuspended w1;
                 (now, w3) = time_us env w2
             in (initial_totals False, ls\<lparr>world := w3, start_time := now\<rparr>,
                 [EvSetState StateSuspended]))
          else (initial_totals False, ls\<lparr>world := w1\<rparr>, []))"

text \<open>Lines 407-413.\<close>

definition suspended_case ::
  "'w Collaborators \<Rightarrow> 'w loop_state \<Rightarrow> totals \<times> 'w loop_state \<times> event list" where
  "suspended_case env ls =
     (case elapsed_time env (start_time ls) (world ls) of
        (el, w1) \<Rightarrow>
          if kSuspendedInterval \<le> el then
            (let w2 = dev_Resume env w1;
                 (now, w3) = time_us env w2
             in (initial_totals False, ls\<lparr>world := w3, start_time := now\<rparr>, [EvDevResume]))
          else (initial_totals False, ls\<lparr>world := w1\<rparr>, []))"

text \<open>Lines 415-425.\<close>

definition resuming_case ::
  "'w Collaborators \<Rightarrow> nat \<Rightarrow> 'w loop_state \<Rightarrow> totals \<times> 'w loop_state \<times> event list" where
  "resuming_case env nstreams ls =
     (case elapsed_time env (start_time ls) (world ls) of
        (el, w1) \<Rightarrow>
          if kResumeInterval \<le> el then
            (let w2 = fold (Resume env) [0..<nstreams] w1;
                 w3 = dev_SetState env StateStreaming w2;
                 (now, w4) = time_us env w3
             in (initial_totals False, ls\<lparr>world := w4, start_time := now\<rparr>,
                 map EvResume [0..<nstreams] @ [EvSetState StateStreaming]))
          else (initial_totals False, ls\<lparr>world := w1\<rparr>, []))"

text \<open>Lines 340-426: \<^verbatim>\<open>done = false\<close> and the \<^verbatim>\<open>switch\<close> on the device state.\<close>

definition state_switch ::
  "'w Collaborators \<Rightarrow> TestConfig \<Rightarrow> nat \<Rightarrow> DevState \<Rightarrow> 'w loop_state
     \<Rightarrow> totals \<times> 'w loop_state \<times> event list" where
  "state_switch env cfg nstreams st ls =
     (case st of
        StateStreaming \<Rightarrow> streaming_case env cfg nstreams ls
      | StateSuspending \<Rightarrow> suspending_case env ls
      | StateSuspended \<Rightarrow> suspended_case env ls
      | StateResuming \<Rightarrow> resuming_case env nstreams ls)"

text \<open>
  How an iteration ends: at the loop condition with the value of \<^verbatim>\<open>done\<close>, by a
  \<^verbatim>\<open>return\<close>, or in undefined behaviour.
\<close>

datatype tick_exit = LoopCondition bool | Returned int | Faulted fault

record 'w tick_result =
  tick_exit :: tick_exit
  tick_totals :: totals
  tick_state :: "'w loop_state"
  tick_trace :: "event list"

text \<open>
  Lines 442-452. The difference is taken on the two values converted to \<^verbatim>\<open>int32_t\<close>;
  the subtraction, or \<^verbatim>\<open>std::abs\<close> of the least \<^verbatim>\<open>int\<close>, overflows when the
  mathematical difference leaves the range of its type.
\<close>

definition sent_delta :: "totals \<Rightarrow> u32 \<Rightarrow> int" where
  "sent_delta t prev = sint (total_sent t) - sint prev"

definition bytes_left :: "totals \<Rightarrow> u32" where
  "bytes_left t =
     (if total_sent t < total_bytes t then total_bytes t - total_sent t else 0)"

definition report ::
  "totals \<Rightarrow> 'w loop_state \<Rightarrow> event list \<Rightarrow> 'w tick_result" where
  "report t ls tr =
     (let d = sent_delta t (prev_bytes ls) in
      if d \<le> - (2 ^ 31) \<or> 2 ^ 31 \<le> d then
        \<lparr>tick_exit = Faulted SignedOverflow, tick_totals = t, tick_state = ls, tick_trace = tr\<rparr>
      else if 0x1000 \<le> \<bar>d\<bar> \<or> done_flag t then
        \<lparr>tick_exit = LoopCondition (done_flag t), tick_totals = t,
         tick_state = ls\<lparr>prev_bytes := total_sent t\<rparr>,
         tick_trace = tr @ [EvProgress (total_recv t) (bytes_left t)]\<rparr>
      else
        \<lparr>tick_exit = LoopCondition (done_flag t), tick_totals = t, tick_state = ls,
         tick_trace = tr\<rparr>)"

text \<open>Lines 335-453: the body of the \<^verbatim>\<open>do ... while (!done)\<close> loop.\<close>

definition tick ::
  "'w Collaborators \<Rightarrow> TestConfig \<Rightarrow> nat \<Rightarrow> 'w loop_state \<Rightarrow> 'w tick_result" where
  "tick env cfg nstreams ls =
     (let st = dev_CurrentState env (world ls) in
      case state_switch env cfg nstreams st ls of
        (t, ls1, tr1) \<Rightarrow>
          if failed t then
            \<lparr>tick_exit = Returned 3, tick_totals = t,
             tick_state = ls1\<lparr>world := fold (\<lambda>idx w. snd (Stop env idx w)) [0..<nstreams] (world ls1)\<rparr>,
             tick_trace = EvCurrentState st # tr1 @ map EvStop [0..<nstreams]\<rparr>
          else
            (case dev_Service env (world ls1) of
               (ok, w2) \<Rightarrow>
                 if \<not> ok then
                   \<lparr>tick_exit = Returned 3, tick_totals = t\<lparr>failed := True\<rparr>,
                    tick_state = ls1\<lparr>world := fold (\<lambda>idx w. snd (Stop env idx w)) [0..<nstreams] w2\<rparr>,
                    tick_trace = EvCurrentState st # tr1 @ EvDevService False # map EvStop [0..<nstreams]\<rparr>
                 else
                   report t (ls1\<lparr>world := w2\<rparr>) (EvCurrentState st # tr1 @ [EvDevService True])))"

subsection \<open>The main loop and the whole of RunTest\<close>

text \<open>
  The loop may run for ever; the first argument bounds the number of iterations, and
  \<open>None\<close> says that the bound was reached before the loop ended.
\<close>

fun main_loop ::
  "nat \<Rightarrow> 'w Collaborators \<Rightarrow> TestConfig \<Rightarrow> nat \<Rightarrow> 'w loop_state
     \<Rightarrow> (tick_exit \<times> 'w loop_state \<times> event list) option" where
  "main_loop 0 env cfg nstreams ls = None"
| "main_loop (Suc fuel) env cfg nstreams ls =
     (let r = tick env cfg nstreams ls in
      if tick_exit r = LoopCondition False then
        (case main_loop fuel env cfg nstreams (tick_state r) of
           None \<Rightarrow> None
         | Some (e, ls', tr) \<Rightarrow> Some (e, ls', tick_trace r @ tr))
      else Some (tick_exit r, tick_state r, tick_trace r))"

text \<open>
  Lines 183-187: the test number and the four argument bytes, read from the device. The
  array \<^verbatim>\<open>testArg\<close> is the function on its indices.
\<close>

definition read_descriptor :: "'w Collaborators \<Rightarrow> 'w \<Rightarrow> u8 \<times> (nat \<Rightarrow> u8)" where
  "read_descriptor env w = (dev_TestNumber env w, (\<lambda>arg. dev_TestArg env arg w))"

text \<open>
  Lines 176-470. The outcome is the value returned or the fault, with the world and the
  trace of all calls made.
\<close>

definition RunTest ::
  "nat \<Rightarrow> bool \<Rightarrow> TestNumbers \<Rightarrow> TestConfig \<Rightarrow> 'w Collaborators \<Rightarrow> 'w
     \<Rightarrow> ((fault + int) \<times> 'w \<times> event list) option" where
  "RunTest fuel libusb tn cfg env w =
     (case read_descriptor env w of
        (testNum, testArg) \<Rightarrow>
          (let nstreams = nstreams_of tn testNum testArg in
           case transfer_bytes_of nstreams of
             Inl f \<Rightarrow> Some (Inl f, w, [])
           | Inr transfer_bytes \<Rightarrow>
               (case open_streams libusb env (stream_type_of tn cfg testNum testArg)
                       transfer_bytes [0..<unat nstreams] w of
                  (AssertFailed, w1, tr) \<Rightarrow> Some (Inl AssertionFailed, w1, tr)
                | (OpenFailed, w1, tr) \<Rightarrow> Some (Inr 1, w1, tr)
                | (AllOpened, w1, tr) \<Rightarrow>
                    (case time_us env w1 of
                       (now, w2) \<Rightarrow>
                         (case main_loop fuel env cfg (unat nstreams)
                                 \<lparr>world = w2, start_time = now, prev_bytes = 0\<rparr> of
                            None \<Rightarrow> None
                          | Some (Faulted f, ls, tr') \<Rightarrow> Some (Inl f, world ls, tr @ tr')
                          | Some (Returned rc, ls, tr') \<Rightarrow> Some (Inr rc, world ls, tr @ tr')
                          | Some (LoopCondition d, ls, tr') \<Rightarrow>
                              (case time_us env (world ls) of
                                 (now', w3) \<Rightarrow>
                                   Some (Inr 0,
                                         fold (\<lambda>idx w. snd (Stop env idx w))
                                           [0..<unat nstreams] w3,
                                         tr @ tr' @ map EvStop [0..<unat nstreams])))))))"

subsection \<open>Case labels of the stream-opening switch\<close>

text \<open>
  The stream types for which the \<^verbatim>\<open>switch\<close> of lines 269-308 has a case, that is a
  transport class to construct: Serial always, Interrupt and Bulk when
  \<^verbatim>\<open>STREAMTEST_LIBUSB\<close> is set.
\<close>

definition has_case :: "bool \<Rightarrow> StreamType \<Rightarrow> bool" where
  "has_case STREAMTEST_LIBUSB streamType =
     (streamType = StreamType_Serial
      \<or> (STREAMTEST_LIBUSB
          \<and> (streamType = StreamType_Interrupt \<or> streamType = StreamType_Bulk)))"

subsection \<open>A simulated device\<close>

text \<open>
  A small executable world on which the results below are exercised: a device that
  follows the suspend-resume cycle, a clock that shows a fixed time, and streams that
  move \<open>sim_chunk\<close> bytes per call of their \<^verbatim>\<open>Service\<close> and \<open>sim_async\<close> bytes
  per call of the device's \<^verbatim>\<open>Service\<close> (transfers that complete while the device
  handles its events), until \<open>sim_goal\<close> bytes are moved. Only the first \<open>sim_ports\<close>
  streams can be opened.
\<close>

record sim =
  sim_testNum :: u8
  sim_testArg :: "nat \<Rightarrow> u8"
  sim_state :: DevState
  sim_clock :: u64
  sim_ports :: nat
  sim_sent :: "nat \<Rightarrow> u32"
  sim_chunk :: u32
  sim_async :: u32
  sim_goal :: u32

definition sim_env :: "sim Collaborators" where
  "sim_env =
     \<lparr>dev_TestNumber = sim_testNum,
      dev_TestArg = (\<lambda>arg w. sim_testArg w arg),
      dev_CurrentState = sim_state,
      dev_SetState = (\<lambda>st w. w\<lparr>sim_state := st\<rparr>),
      dev_Suspend = (\<lambda>w. w\<lparr>sim_state := StateSuspending\<rparr>),
      dev_Resume = (\<lambda>w. w\<lparr>sim_state := StateResuming\<rparr>),
      dev_Service = (\<lambda>w. (True, w\<lparr>sim_sent := (\<lambda>idx. sim_sent w idx + sim_async w)\<rparr>)),
      OpenSerial = (\<lambda>idx n w. (idx < sim_ports w, w)),
      OpenInt = (\<lambda>bulk idx n w. (idx < sim_ports w, w)),
      Delete = (\<lambda>idx w. w),
      Service = (\<lambda>idx w. (True, w\<lparr>sim_sent := (sim_sent w)(idx := sim_sent w idx + sim_chunk w)\<rparr>)),
      Pause = (\<lambda>idx w. w),
      Resume = (\<lambda>idx w. w),
      Stop = (\<lambda>idx w. (True, w)),
      Completed = (\<lambda>idx w. sim_goal w \<le> sim_sent w idx),
      TransferBytes = (\<lambda>idx w. sim_goal w),
      BytesRecvd = (\<lambda>idx w. sim_sent w idx),
      BytesSent = (\<lambda>idx w. sim_sent w idx),
      time_us = (\<lambda>w. (sim_clock w, w)),
      elapsed_time = (\<lambda>start w. (sim_clock w - start, w))\<rparr>"

definition sim_numbers :: TestNumbers where
  "sim_numbers = \<lparr>kUsbTestNumberStreams = 1, kUsbTestNumberIso = 2, kUsbTestNumberMixed = 3\<rparr>"

definition sim_cfg :: "bool \<Rightarrow> TestConfig" where
  "sim_cfg z =
     \<lparr>verbose = False, retrieve = True, check = True, send = True, serial = False,
      suspending = z\<rparr>"

text \<open>
  The simulated world with test number \<open>n\<close>, first argument byte \<open>a\<close> (the other three
  are 0), device state \<open>st\<close>, clock \<open>c\<close>, \<open>p\<close> ports, and streams that have moved \<open>s\<close>
  bytes each, move \<open>k\<close> bytes per service (none while the device is serviced) and have
  \<open>g\<close> bytes to move.
\<close>

definition sim_world :: "u8 \<Rightarrow> u8 \<Rightarrow> DevState \<Rightarrow> u64 \<Rightarrow> nat \<Rightarrow> u32 \<Rightarrow> u32 \<Rightarrow> u32 \<Rightarrow> sim" where
  "sim_world n a st c p s k g =
     \<lparr>sim_testNum = n, sim_testArg = (\<lambda>arg. if arg = 0 then a else 0), sim_state = st,
      sim_clock = c, sim_ports = p, sim_sent = (\<lambda>idx. s), sim_chunk = k, sim_async = 0,
      sim_goal = g\<rparr>"

definition sim_loop :: "DevState \<Rightarrow> u64 \<Rightarrow> u32 \<Rightarrow> u32 \<Rightarrow> u32 \<Rightarrow> sim loop_state" where
  "sim_loop st c s k g =
     \<lparr>world = sim_world 1 1 st c 1 s k g, start_time = 0, prev_bytes = 0\<rparr>"

text \<open>
  A loop state in which the run interval has elapsed and half of the bytes of the one
  stream arrive while the device is serviced.
\<close>

definition sim_late :: "sim loop_state" where
  "sim_late =
     \<lparr>world = (sim_world 1 1 StateStreaming 6000000 1 0 0x1000 0x2000)\<lparr>sim_async := 0x1000\<rparr>,
      start_time = 0, prev_bytes = 0\<rparr>"

text \<open>
  A descriptor of test Mixed with two streams: the first Bulk (code 2), the second
  Control (code 0).
\<close>

definition sim_mixed :: sim where
  "sim_mixed = (sim_world 3 2 StateStreaming 0 2 0 0x1000 0x2000)
     \<lparr>sim_testArg := (\<lambda>arg. if arg < 2 then 2 else 0)\<rparr>"

lemmas sim_defs = sim_env_def sim_cfg_def sim_numbers_def sim_world_def sim_loop_def

section \<open>Properties of the test descriptor\<close>

subsection \<open>Bytes as numbers\<close>

lemma unat_byte_less: "unat (a::u8) < 2 ^ 8"
  using unsigned_less [of a] by simp

lemma take_bit_unat_byte: "take_bit 32 (unat (a::u8)) = unat a"
  using unat_byte_less [of a] by (simp add: take_bit_nat_eq_self)

lemma unat_low_nibble: "unat ((ucast (a::u8) :: u32) AND 0xf) = unat (a AND 0xf)"
  by (simp add: unsigned_and_eq unsigned_ucast_eq take_bit_unat_byte)

subsection \<open>The stream count\<close>

text \<open>
  Claim C2. The stream count that \<^verbatim>\<open>RunTest\<close> computes is the low nibble of the first
  argument byte, \<open>testArg[0] & 0xF\<close>, when the test number is one of Streams, Isochronous
  and Mixed, and it is 2 for every other test number.
\<close>

theorem stream_count:
  "unat (nstreams_of tn testNum testArg) =
     (if uint testNum = kUsbTestNumberStreams tn \<or> uint testNum = kUsbTestNumberIso tn
         \<or> uint testNum = kUsbTestNumberMixed tn
      then unat (testArg 0 AND 0xf) else 2)"
  by (simp add: nstreams_of_def unat_low_nibble)

theorem stream_count_witness:
  "unat (nstreams_of sim_numbers 2 (\<lambda>arg. 0x35)) = 5
   \<and> unat (nstreams_of sim_numbers 9 (\<lambda>arg. 0x35)) = 2"
  using stream_count [of sim_numbers 2 "\<lambda>arg. 0x35"]
    stream_count [of sim_numbers 9 "\<lambda>arg. 0x35"]
  by (simp add: sim_numbers_def)

subsection \<open>The transfer size per stream\<close>

text \<open>
  Claim C9 says that the division \<open>(kTransferBytes + nstreams - 1) / nstreams\<close> always
  runs with a stream count of at least 1. The source does not see to that: a descriptor of
  test Streams whose first argument byte is \<open>0x10\<close> has a low nibble of 0, the stream
  count is 0, and \<^verbatim>\<open>RunTest\<close> divides by it before it opens any stream.
\<close>

theorem zero_streams_divide_by_zero:
  "nstreams_of sim_numbers 1 (sim_testArg (sim_world 1 0x10 StateStreaming 0 2 0 0x1000 0x2000)) = 0
   \<and> map_option fst (RunTest 5 True sim_numbers (sim_cfg False) sim_env
         (sim_world 1 0x10 StateStreaming 0 2 0 0x1000 0x2000)) = Some (Inl DivideByZero)"
  by (simp add: RunTest_def read_descriptor_def nstreams_of_def transfer_bytes_of_def sim_defs)

subsection \<open>The transfer types of test Mixed\<close>

lemma push_bit_or_low:
  fixes a c :: nat
  assumes "c < 2 ^ k"
  shows "push_bit k a OR c = push_bit k a + c"
proof (rule disjunctive_add_eq_or [symmetric])
  have high: "\<not> bit c n" if "k \<le> n" for n
    using assms that by (metis bit_take_bit_iff take_bit_nat_eq_self not_le)
  show "push_bit k a AND c = 0"
    by (simp add: bit_eq_iff bit_simps high)
qed

lemma unat_mixedTypes: "unat (mixedTypes_of testArg) = spec_mixed_field testArg"
proof -
  define a b c where "a = unat (testArg 3)" and "b = unat (testArg 2)" and "c = unat (testArg 1)"
  have la: "a < 2 ^ 8" and lb: "b < 2 ^ 8" and lc: "c < 2 ^ 8"
    by (simp_all only: a_def b_def c_def unat_byte_less)
  have pa: "take_bit 32 (push_bit 16 a) = push_bit 16 a"
    using la by (simp add: take_bit_nat_eq_self push_bit_eq_mult)
  have pb: "take_bit 32 (push_bit 8 b) = push_bit 8 b"
    using lb by (simp add: take_bit_nat_eq_self push_bit_eq_mult)
  have "unat (mixedTypes_of testArg) = push_bit 16 a OR push_bit 8 b OR c"
    using la lb lc
    by (simp add: mixedTypes_of_def unsigned_or_eq unsigned_push_bit_eq unsigned_ucast_eq
        a_def [symmetric] b_def [symmetric] c_def [symmetric] take_bit_nat_eq_self pa pb
        del: One_nat_def)
  also have "push_bit 8 b OR c = push_bit 8 b + c"
    using lc by (rule push_bit_or_low)
  also have "push_bit 16 a OR (push_bit 8 b + c) = push_bit 16 a + (push_bit 8 b + c)"
  proof (rule push_bit_or_low)
    show "push_bit 8 b + c < 2 ^ 16" using lb lc by (simp add: push_bit_eq_mult)
  qed
  finally show ?thesis
    by (simp add: spec_mixed_field_def push_bit_eq_mult ac_simps a_def b_def c_def)
qed

lemma unat_type_code:
  "unat (drop_bit (idx * 2) (m::u32) AND 3) = (unat m div 4 ^ idx) mod 4"
proof -
  have "(3::u32) = mask 2" by (simp add: mask_eq_exp_minus_1)
  then have "unat (drop_bit (idx * 2) m AND 3) = unat (take_bit 2 (drop_bit (idx * 2) m))"
    by (simp add: take_bit_eq_mask)
  also have "\<dots> = take_bit 2 (drop_bit (idx * 2) (unat m))"
    by (simp only: unsigned_take_bit_eq unat_drop_bit_eq)
  also have "\<dots> = (unat m div 2 ^ (idx * 2)) mod 2 ^ 2"
    by (simp only: take_bit_eq_mod drop_bit_eq_div)
  also have "(2::nat) ^ (idx * 2) = 4 ^ idx"
    by (simp add: mult.commute [of idx] power_mult)
  finally show ?thesis by simp
qed

lemma mixed_stream_type_refines:
  "mixed_stream_type (mixedTypes_of testArg) idx = spec_mixed_type testArg idx"
proof -
  define code where "code = drop_bit (idx * 2) (mixedTypes_of testArg) AND 3"
  have u: "unat code = (spec_mixed_field testArg div 4 ^ idx) mod 4"
    by (simp only: code_def unat_type_code unat_mixedTypes)
  have e: "code = 0 \<longleftrightarrow> unat code = 0" "code = 1 \<longleftrightarrow> unat code = 1"
    "code = 2 \<longleftrightarrow> unat code = 2"
    by (simp_all add: word_unat_eq_iff)
  show ?thesis
    unfolding mixed_stream_type_def code_def [symmetric] Let_def e u
      spec_mixed_type_def spec_type_of_code_def ..
qed

text \<open>
  Claim C3. For test Mixed the type of stream \<open>idx\<close> is the 2-bit field at offset
  \<open>2 * idx\<close> of the 24-bit value \<open>(testArg[3]<<16)|(testArg[2]<<8)|testArg[1]\<close>, with
  0 for Control, 1 for Isochronous, 2 for Bulk and 3 for Interrupt; when the three bytes
  are zero every stream is Control, and a field of \<open>0b11\<close> gives Interrupt. The index
  is below 16, as the stream count is a nibble (and the shift is defined).
\<close>

theorem mixed_types_decoded:
  assumes "uint testNum = kUsbTestNumberMixed tn" and "distinct_labels tn" and "idx < 16"
  shows "stream_type_of tn cfg testNum testArg idx = spec_mixed_type testArg idx
    \<and> (testArg 1 = 0 \<and> testArg 2 = 0 \<and> testArg 3 = 0
         \<longrightarrow> stream_type_of tn cfg testNum testArg idx = StreamType_Control)
    \<and> ((spec_mixed_field testArg div 4 ^ idx) mod 4 = 3
         \<longrightarrow> stream_type_of tn cfg testNum testArg idx = StreamType_Interrupt)"
proof -
  have eq: "stream_type_of tn cfg testNum testArg idx = spec_mixed_type testArg idx"
    using assms(1,2)
    by (auto simp: stream_type_of_def distinct_labels_def mixed_stream_type_refines)
  show ?thesis
    by (simp add: eq spec_mixed_type_def spec_type_of_code_def spec_mixed_field_def)
qed

theorem mixed_types_decoded_witness:
  "stream_type_of sim_numbers (sim_cfg False) 3 (\<lambda>arg. if arg = 1 then 0xE4 else 0) 0 = StreamType_Control
   \<and> stream_type_of sim_numbers (sim_cfg False) 3 (\<lambda>arg. if arg = 1 then 0xE4 else 0) 1 = StreamType_Isochronous
   \<and> stream_type_of sim_numbers (sim_cfg False) 3 (\<lambda>arg. if arg = 1 then 0xE4 else 0) 2 = StreamType_Bulk
   \<and> stream_type_of sim_numbers (sim_cfg False) 3 (\<lambda>arg. if arg = 1 then 0xE4 else 0) 3 = StreamType_Interrupt
   \<and> stream_type_of sim_numbers (sim_cfg False) 3 (\<lambda>arg. if arg = 2 then 0x03 else 0) 4 = StreamType_Interrupt
   \<and> stream_type_of sim_numbers (sim_cfg False) 3 (\<lambda>arg. 0) 7 = StreamType_Control"
  using mixed_types_decoded [of 3 sim_numbers 0 "sim_cfg False" "\<lambda>arg. if arg = 1 then 0xE4 else 0"]
    mixed_types_decoded [of 3 sim_numbers 1 "sim_cfg False" "\<lambda>arg. if arg = 1 then 0xE4 else 0"]
    mixed_types_decoded [of 3 sim_numbers 2 "sim_cfg False" "\<lambda>arg. if arg = 1 then 0xE4 else 0"]
    mixed_types_decoded [of 3 sim_numbers 3 "sim_cfg False" "\<lambda>arg. if arg = 1 then 0xE4 else 0"]
    mixed_types_decoded [of 3 sim_numbers 4 "sim_cfg False" "\<lambda>arg. if arg = 2 then 0x03 else 0"]
    mixed_types_decoded [of 3 sim_numbers 7 "sim_cfg False" "\<lambda>arg. 0"]
  by (simp add: sim_numbers_def distinct_labels_def spec_mixed_type_def spec_type_of_code_def
      spec_mixed_field_def)

section \<open>Properties of the main loop\<close>

subsection \<open>The servicing loop\<close>

lemma service_streams_events:
  "service_streams env idxs t w = (t', w', tr) \<Longrightarrow> e \<in> set tr \<Longrightarrow>
     (\<exists>idx\<in>set idxs. (\<exists>ok. e = EvService idx ok) \<or> (\<exists>c. e = EvCompleted idx c))"
proof (induction idxs arbitrary: t w t' w' tr)
  case Nil
  then show ?case by simp
next
  case (Cons idx rest)
  then show ?case
    by (fastforce split: prod.splits if_splits)
qed

lemma done_update_totals:
  "done_flag (update_totals env idx w t) \<longleftrightarrow> done_flag t \<and> Completed env idx w"
  by (simp add: update_totals_def Let_def)

lemma service_streams_done:
  "service_streams env idxs t w = (t', w', tr) \<Longrightarrow> \<not> failed t' \<Longrightarrow> distinct idxs \<Longrightarrow>
     (done_flag t' \<longleftrightarrow> done_flag t \<and> (\<forall>idx\<in>set idxs. EvCompleted idx True \<in> set tr))"
proof (induction idxs arbitrary: t w t' w' tr)
  case Nil
  then show ?case by simp
next
  case (Cons idx rest)
  obtain ok w1 where sv: "Service env idx w = (ok, w1)" by (cases "Service env idx w")
  show ?case
  proof (cases ok)
    case False
    with sv Cons.prems show ?thesis by auto
  next
    case True
    obtain t3 w3 tr3 where rec:
      "service_streams env rest (update_totals env idx w1 t) w1 = (t3, w3, tr3)"
      by (cases "service_streams env rest (update_totals env idx w1 t) w1")
    from sv True rec Cons.prems(1)
    have res: "t' = t3" "tr = EvService idx True # EvCompleted idx (Completed env idx w1) # tr3"
      by simp_all
    have fresh: "EvCompleted idx True \<notin> set tr3"
      using service_streams_events [OF rec] Cons.prems(3) by fastforce
    have ih: "done_flag t3 \<longleftrightarrow>
        done_flag (update_totals env idx w1 t) \<and> (\<forall>i\<in>set rest. EvCompleted i True \<in> set tr3)"
      using Cons.IH [OF rec] Cons.prems(2,3) res by simp
    show ?thesis
      using fresh Cons.prems(3) by (auto simp: res ih done_update_totals)
  qed
qed

subsection \<open>The switch on the device state\<close>

lemma streaming_case_shape:
  assumes "service_streams env [0..<n] (initial_totals True) (world ls) = (t, w1, tr1)"
  shows "\<exists>ls1 tr2. streaming_case env cfg n ls = (t, ls1, tr1 @ tr2)
           \<and> prev_bytes ls1 = prev_bytes ls
           \<and> (tr2 = [] \<or> tr2 = map EvPause [0..<n] @ [EvSuspend])"
  using assms
  by (auto simp: streaming_case_def Let_def split: prod.splits)

lemma state_switch_streaming_done:
  assumes "state_switch env cfg n StateStreaming ls = (t, ls1, tr)" and "\<not> failed t"
  shows "done_flag t \<longleftrightarrow> (\<forall>idx<n. EvCompleted idx True \<in> set tr)"
proof -
  obtain t0 w1 tr1 where sv:
    "service_streams env [0..<n] (initial_totals True) (world ls) = (t0, w1, tr1)"
    by (cases "service_streams env [0..<n] (initial_totals True) (world ls)")
  from streaming_case_shape [OF sv, of cfg] assms(1)
  obtain tr2 where sh: "t = t0" "tr = tr1 @ tr2"
    "tr2 = [] \<or> tr2 = map EvPause [0..<n] @ [EvSuspend]"
    by (auto simp: state_switch_def)
  have "done_flag t0 \<longleftrightarrow> (\<forall>idx\<in>set [0..<n]. EvCompleted idx True \<in> set tr1)"
    using service_streams_done [OF sv] assms(2) sh(1)
    by (simp add: initial_totals_def)
  moreover have "EvCompleted idx True \<in> set tr \<longleftrightarrow> EvCompleted idx True \<in> set tr1" for idx
    using sh(2,3) by auto
  ultimately show ?thesis
    using sh(1) by auto
qed

lemma state_switch_not_streaming:
  assumes "st \<noteq> StateStreaming" and "state_switch env cfg n st ls = (t, ls1, tr)"
  shows "t = initial_totals False"
    and "\<forall>e\<in>set tr. (\<exists>s. e = EvSetState s) \<or> e = EvDevResume \<or> (\<exists>i. e = EvResume i)"
  using assms
  by (cases st;
      auto simp: state_switch_def suspending_case_def suspended_case_def resuming_case_def
        Let_def split: prod.splits if_splits)+

lemma state_switch_prev_bytes:
  "state_switch env cfg n st ls = (t, ls1, tr) \<Longrightarrow> prev_bytes ls1 = prev_bytes ls"
  by (cases st)
     (auto simp: state_switch_def streaming_case_def suspending_case_def suspended_case_def
        resuming_case_def Let_def split: prod.splits if_splits)


lemma state_switch_done:
  assumes "state_switch env cfg n st ls = (t, ls1, tr)" and "\<not> failed t"
  shows "done_flag t \<longleftrightarrow> st = StateStreaming \<and> (\<forall>idx<n. EvCompleted idx True \<in> set tr)"
proof (cases "st = StateStreaming")
  case True
  with state_switch_streaming_done assms show ?thesis by blast
next
  case False
  from state_switch_not_streaming(1) [OF False assms(1)] False show ?thesis
    by (simp add: initial_totals_def)
qed

subsection \<open>One iteration\<close>

lemma tick_at_loop_condition:
  assumes sw: "state_switch env cfg n (dev_CurrentState env (world ls)) ls = (t, ls1, tr)"
    and ex: "tick_exit (tick env cfg n ls) = LoopCondition d"
  shows "\<not> failed t" and "d = done_flag t" and "tick_totals (tick env cfg n ls) = t"
    and "\<exists>rest. tick_trace (tick env cfg n ls)
            = EvCurrentState (dev_CurrentState env (world ls)) # tr @ EvDevService True # rest
          \<and> (if 0x1000 \<le> \<bar>sent_delta t (prev_bytes ls)\<bar> \<or> done_flag t
              then rest = [EvProgress (total_recv t) (bytes_left t)] else rest = [])"
  using sw ex state_switch_prev_bytes [OF sw]
  by (auto simp: tick_def report_def Let_def split: prod.splits if_splits)

lemma tick_trace_head:
  "\<exists>t ls1 tr rest. state_switch env cfg n (dev_CurrentState env (world ls)) ls = (t, ls1, tr)
     \<and> tick_trace (tick env cfg n ls) = EvCurrentState (dev_CurrentState env (world ls)) # tr @ rest
     \<and> (\<forall>e\<in>set rest. (\<exists>ok. e = EvDevService ok) \<or> (\<exists>i. e = EvStop i) \<or> (\<exists>a b. e = EvProgress a b))"
  by (cases "state_switch env cfg n (dev_CurrentState env (world ls)) ls")
     (auto simp: tick_def report_def Let_def split: prod.splits)

lemmas tick_defs = tick_def state_switch_def streaming_case_def suspending_case_def
  suspended_case_def resuming_case_def report_def sent_delta_def bytes_left_def
  update_totals_def initial_totals_def
  kRunInterval_def kSuspendingInterval_def kSuspendedInterval_def kResumeInterval_def

subsection \<open>Servicing and the device state\<close>

text \<open>
  Claim C1. Every iteration of the main loop begins by asking the device for its state;
  if the answer is not Streaming, the iteration calls \<^verbatim>\<open>Service\<close> on no stream. Calls
  of a stream's \<^verbatim>\<open>Service\<close> are found only in iterations that observed Streaming.
\<close>

theorem service_only_while_streaming:
  "\<exists>rest. tick_trace (tick env cfg nstreams ls)
             = EvCurrentState (dev_CurrentState env (world ls)) # rest
     \<and> (dev_CurrentState env (world ls) \<noteq> StateStreaming
          \<longrightarrow> (\<forall>idx ok. EvService idx ok \<notin> set rest))"
proof -
  from tick_trace_head [of env cfg nstreams ls]
  obtain t ls1 tr rest where
    sw: "state_switch env cfg nstreams (dev_CurrentState env (world ls)) ls = (t, ls1, tr)"
    and tr: "tick_trace (tick env cfg nstreams ls)
               = EvCurrentState (dev_CurrentState env (world ls)) # tr @ rest"
    and rest: "\<forall>e\<in>set rest. (\<exists>ok. e = EvDevService ok) \<or> (\<exists>i. e = EvStop i)
                 \<or> (\<exists>a b. e = EvProgress a b)"
    by blast
  have "EvService idx ok \<notin> set (tr @ rest)"
    if "dev_CurrentState env (world ls) \<noteq> StateStreaming" for idx ok
    using state_switch_not_streaming(2) [OF that sw] rest by auto
  with tr show ?thesis by blast
qed

theorem service_only_while_streaming_witness:
  "dev_CurrentState sim_env (world (sim_loop StateSuspended 6000000 0 0x1000 0x2000)) = StateSuspended
   \<and> tick_trace (tick sim_env (sim_cfg True) 1 (sim_loop StateSuspended 6000000 0 0x1000 0x2000))
       = [EvCurrentState StateSuspended, EvDevResume, EvDevService True]
   \<and> EvService 0 True \<notin> set (tl (tick_trace (tick sim_env (sim_cfg True) 1
         (sim_loop StateSuspended 6000000 0 0x1000 0x2000))))"
  using service_only_while_streaming
    [of sim_env "sim_cfg True" 1 "sim_loop StateSuspended 6000000 0 0x1000 0x2000"]
  by (simp add: tick_defs sim_defs)

subsection \<open>The done flag\<close>

lemma tick_completed_events:
  assumes sw: "state_switch env cfg n (dev_CurrentState env (world ls)) ls = (t, ls1, tr)"
    and ex: "tick_exit (tick env cfg n ls) = LoopCondition d"
  shows "EvCompleted idx c \<in> set (tick_trace (tick env cfg n ls)) \<longleftrightarrow> EvCompleted idx c \<in> set tr"
  using tick_at_loop_condition(4) [OF sw ex]
  by (auto split: if_splits)

lemma tick_done_iff:
  assumes "tick_exit (tick env cfg n ls) = LoopCondition d"
  shows "d \<longleftrightarrow> dev_CurrentState env (world ls) = StateStreaming
           \<and> (\<forall>idx<n. EvCompleted idx True \<in> set (tick_trace (tick env cfg n ls)))"
proof -
  obtain t ls1 tr where
    sw: "state_switch env cfg n (dev_CurrentState env (world ls)) ls = (t, ls1, tr)"
    by (cases "state_switch env cfg n (dev_CurrentState env (world ls)) ls")
  note at = tick_at_loop_condition [OF sw assms]
  show ?thesis
    using state_switch_done [OF sw at(1)] at(2) tick_completed_events [OF sw assms]
    by simp
qed

lemma tick_totals_done:
  "state_switch env cfg n (dev_CurrentState env (world ls)) ls = (t, ls1, tr) \<Longrightarrow>
     done_flag (tick_totals (tick env cfg n ls)) = done_flag t"
  by (auto simp: tick_def report_def Let_def split: prod.splits)

lemma main_loop_last_tick:
  "main_loop fuel env cfg n ls = Some (e, ls', tr) \<Longrightarrow>
     \<exists>lsk pre. tr = pre @ tick_trace (tick env cfg n lsk)
       \<and> ls' = tick_state (tick env cfg n lsk)
       \<and> e = tick_exit (tick env cfg n lsk)
       \<and> e \<noteq> LoopCondition False"
proof (induction fuel arbitrary: ls ls' tr)
  case 0
  then show ?case by simp
next
  case (Suc fuel)
  show ?case
  proof (cases "tick_exit (tick env cfg n ls) = LoopCondition False")
    case False
    with Suc.prems have "tr = [] @ tick_trace (tick env cfg n ls)"
      "ls' = tick_state (tick env cfg n ls)" "e = tick_exit (tick env cfg n ls)"
      by (simp_all add: Let_def)
    with False show ?thesis by blast
  next
    case True
    with Suc.prems obtain tr' where
      rec: "main_loop fuel env cfg n (tick_state (tick env cfg n ls)) = Some (e, ls', tr')"
      and tr: "tr = tick_trace (tick env cfg n ls) @ tr'"
      by (auto simp: Let_def split: option.splits)
    from Suc.IH [OF rec] obtain lsk pre where
      "tr' = pre @ tick_trace (tick env cfg n lsk)" "ls' = tick_state (tick env cfg n lsk)"
      "e = tick_exit (tick env cfg n lsk)" "e \<noteq> LoopCondition False"
      by blast
    with tr have "tr = (tick_trace (tick env cfg n ls) @ pre) @ tick_trace (tick env cfg n lsk)"
      by simp
    with \<open>ls' = _\<close> \<open>e = _\<close> \<open>e \<noteq> _\<close> show ?thesis by blast
  qed
qed

lemma sim_two_ticks:
  "main_loop (Suc (Suc 0)) sim_env (sim_cfg False) 1 (sim_loop StateStreaming 0 0 0x1000 0x2000)
     = Some (LoopCondition True,
         tick_state (tick sim_env (sim_cfg False) 1
           (tick_state (tick sim_env (sim_cfg False) 1 (sim_loop StateStreaming 0 0 0x1000 0x2000)))),
         tick_trace (tick sim_env (sim_cfg False) 1 (sim_loop StateStreaming 0 0 0x1000 0x2000))
           @ tick_trace (tick sim_env (sim_cfg False) 1
               (tick_state (tick sim_env (sim_cfg False) 1 (sim_loop StateStreaming 0 0 0x1000 0x2000)))))"
proof -
  have 1: "tick_exit (tick sim_env (sim_cfg False) 1 (sim_loop StateStreaming 0 0 0x1000 0x2000))
             = LoopCondition False"
    by (simp add: tick_defs sim_defs)
  have 2: "tick_exit (tick sim_env (sim_cfg False) 1
             (tick_state (tick sim_env (sim_cfg False) 1 (sim_loop StateStreaming 0 0 0x1000 0x2000))))
             = LoopCondition True"
    by (simp add: tick_defs sim_defs)
  show ?thesis
    by (simp add: Let_def 1 2 del: One_nat_def)
qed

text \<open>
  Claim C6 says that on every iteration \<^verbatim>\<open>done\<close> is true if and only if every stream's
  \<^verbatim>\<open>Completed()\<close> is true. As amended: on every iteration that reaches the loop
  condition (no \<^verbatim>\<open>Service\<close> of a stream or of the device has failed), \<^verbatim>\<open>done\<close> is
  true if and only if the device state observed in that iteration is Streaming and the
  call of \<^verbatim>\<open>Completed()\<close> that follows the \<^verbatim>\<open>Service()\<close> of each stream in that
  iteration has returned true.
\<close>

theorem done_iff_streaming_and_all_completed:
  "tick_exit (tick env cfg nstreams ls) = LoopCondition d \<Longrightarrow>
     (d \<longleftrightarrow> dev_CurrentState env (world ls) = StateStreaming
          \<and> (\<forall>idx<nstreams. EvCompleted idx True \<in> set (tick_trace (tick env cfg nstreams ls))))"
  by (rule tick_done_iff)

theorem done_iff_streaming_and_all_completed_witness:
  "tick_exit (tick sim_env (sim_cfg False) 1 (sim_loop StateStreaming 0 0x1000 0x1000 0x2000))
     = LoopCondition True
   \<and> dev_CurrentState sim_env (world (sim_loop StateStreaming 0 0x1000 0x1000 0x2000)) = StateStreaming
   \<and> EvCompleted 0 True \<in> set (tick_trace (tick sim_env (sim_cfg False) 1
         (sim_loop StateStreaming 0 0x1000 0x1000 0x2000)))"
  using done_iff_streaming_and_all_completed
    [of sim_env "sim_cfg False" 1 "sim_loop StateStreaming 0 0x1000 0x1000 0x2000" True]
  by (simp add: tick_defs sim_defs)

text \<open>
  The claim as it stands fails in an iteration that observes another state. The
  simulated run starts in Streaming with suspend-resume testing enabled and the run
  interval elapsed: the first iteration services the one stream, which is not complete
  yet, pauses it and suspends the device; the last bytes of the stream arrive while the
  device is serviced. The second iteration observes Suspending; the stream reports
  \<^verbatim>\<open>Completed()\<close> before and after it, and \<^verbatim>\<open>done\<close> is false at the loop condition.
\<close>

theorem done_false_though_completed:
  "tick_exit (tick sim_env (sim_cfg True) 1 sim_late) = LoopCondition False
   \<and> dev_CurrentState sim_env (world (tick_state (tick sim_env (sim_cfg True) 1 sim_late)))
       = StateSuspending
   \<and> Completed sim_env 0 (world (tick_state (tick sim_env (sim_cfg True) 1 sim_late)))
   \<and> Completed sim_env 0 (world (tick_state (tick sim_env (sim_cfg True) 1
         (tick_state (tick sim_env (sim_cfg True) 1 sim_late)))))
   \<and> tick_exit (tick sim_env (sim_cfg True) 1
         (tick_state (tick sim_env (sim_cfg True) 1 sim_late))) = LoopCondition False"
  by (simp add: tick_defs sim_defs sim_late_def)

text \<open>
  Claim C10. In an iteration whose observed device state is not Streaming, \<^verbatim>\<open>done\<close> is
  false when the iteration ends. Hence, when the main loop ends through its condition,
  the last iteration observed Streaming and in it every stream answered \<^verbatim>\<open>Completed()\<close>
  with true.
\<close>

theorem done_only_while_streaming:
  "(dev_CurrentState env (world ls) \<noteq> StateStreaming
      \<longrightarrow> \<not> done_flag (tick_totals (tick env cfg nstreams ls))
          \<and> tick_exit (tick env cfg nstreams ls) \<noteq> LoopCondition True)
   \<and> (main_loop fuel env cfg nstreams ls = Some (LoopCondition d, ls', tr)
      \<longrightarrow> (\<exists>lsk pre. tr = pre @ tick_trace (tick env cfg nstreams lsk)
             \<and> ls' = tick_state (tick env cfg nstreams lsk)
             \<and> tick_exit (tick env cfg nstreams lsk) = LoopCondition True
             \<and> dev_CurrentState env (world lsk) = StateStreaming
             \<and> (\<forall>idx<nstreams. EvCompleted idx True
                    \<in> set (tick_trace (tick env cfg nstreams lsk)))))"
proof (intro conjI impI)
  assume ns: "dev_CurrentState env (world ls) \<noteq> StateStreaming"
  obtain t ls1 tr1 where
    sw: "state_switch env cfg nstreams (dev_CurrentState env (world ls)) ls = (t, ls1, tr1)"
    by (cases "state_switch env cfg nstreams (dev_CurrentState env (world ls)) ls")
  from state_switch_not_streaming(1) [OF ns sw] tick_totals_done [OF sw]
  show "\<not> done_flag (tick_totals (tick env cfg nstreams ls))"
    by (simp add: initial_totals_def)
  from tick_done_iff [of env cfg nstreams ls True] ns
  show "tick_exit (tick env cfg nstreams ls) \<noteq> LoopCondition True"
    by blast
next
  assume "main_loop fuel env cfg nstreams ls = Some (LoopCondition d, ls', tr)"
  from main_loop_last_tick [OF this] obtain lsk pre where
    last: "tr = pre @ tick_trace (tick env cfg nstreams lsk)"
      "ls' = tick_state (tick env cfg nstreams lsk)"
      "LoopCondition d = tick_exit (tick env cfg nstreams lsk)" "LoopCondition d \<noteq> LoopCondition False"
    by blast
  from last(3,4) have ex: "tick_exit (tick env cfg nstreams lsk) = LoopCondition True"
    by (cases d) simp_all
  from tick_done_iff [OF ex] last(1,2) ex
  show "\<exists>lsk pre. tr = pre @ tick_trace (tick env cfg nstreams lsk)
             \<and> ls' = tick_state (tick env cfg nstreams lsk)
             \<and> tick_exit (tick env cfg nstreams lsk) = LoopCondition True
             \<and> dev_CurrentState env (world lsk) = StateStreaming
             \<and> (\<forall>idx<nstreams. EvCompleted idx True
                    \<in> set (tick_trace (tick env cfg nstreams lsk)))"
    by blast
qed

theorem done_only_while_streaming_witness:
  "dev_CurrentState sim_env (world (sim_loop StateSuspended 0 0x2000 0x1000 0x2000)) = StateSuspended
   \<and> \<not> done_flag (tick_totals (tick sim_env (sim_cfg False) 1
           (sim_loop StateSuspended 0 0x2000 0x1000 0x2000)))
   \<and> map_option fst (main_loop (Suc (Suc 0)) sim_env (sim_cfg False) 1
         (sim_loop StateStreaming 0 0 0x1000 0x2000)) = Some (LoopCondition True)
   \<and> (\<exists>lsk pre. snd (snd (the (main_loop (Suc (Suc 0)) sim_env (sim_cfg False) 1
                     (sim_loop StateStreaming 0 0 0x1000 0x2000))))
                 = pre @ tick_trace (tick sim_env (sim_cfg False) 1 lsk)
          \<and> dev_CurrentState sim_env (world lsk) = StateStreaming
          \<and> EvCompleted 0 True \<in> set (tick_trace (tick sim_env (sim_cfg False) 1 lsk)))"
proof -
  let ?L = "sim_loop StateStreaming 0 0 0x1000 0x2000"
  let ?t1 = "tick sim_env (sim_cfg False) 1 ?L"
  let ?t2 = "tick sim_env (sim_cfg False) 1 (tick_state ?t1)"
  have a: "dev_CurrentState sim_env (world (sim_loop StateSuspended 0 0x2000 0x1000 0x2000))
             = StateSuspended"
    by (simp add: sim_defs)
  from done_only_while_streaming
    [of sim_env "sim_loop StateSuspended 0 0x2000 0x1000 0x2000" "sim_cfg False" 1
        "Suc (Suc 0)" True "tick_state ?t2" "tick_trace ?t1 @ tick_trace ?t2"]
  have b: "\<not> done_flag (tick_totals (tick sim_env (sim_cfg False) 1
           (sim_loop StateSuspended 0 0x2000 0x1000 0x2000)))"
    using a by simp
  from done_only_while_streaming
    [of sim_env ?L "sim_cfg False" 1 "Suc (Suc 0)" True "tick_state ?t2"
        "tick_trace ?t1 @ tick_trace ?t2"] sim_two_ticks
  have c: "\<exists>lsk pre. tick_trace ?t1 @ tick_trace ?t2 = pre @ tick_trace (tick sim_env (sim_cfg False) 1 lsk)
          \<and> dev_CurrentState sim_env (world lsk) = StateStreaming
          \<and> EvCompleted 0 True \<in> set (tick_trace (tick sim_env (sim_cfg False) 1 lsk))"
    by blast
  show ?thesis
    unfolding sim_two_ticks using a b c by simp
qed

subsection \<open>The progress line\<close>




subsection \<open>Suspending and resuming\<close>






section \<open>Properties of the opening phase\<close>

subsection \<open>Opening and rolling back\<close>


lemma open_stream_cases:
  "open_stream libusb env ty idx tb w = (r, w1, tr) \<Longrightarrow>
     (r = Asserted \<and> \<not> has_case libusb ty \<and> w1 = w \<and> tr = [])
     \<or> (r = Opened \<and> has_case libusb ty \<and> tr = [EvOpen ty idx True])
     \<or> (r = NotOpened \<and> has_case libusb ty \<and> tr = [EvOpen ty idx False])"
  by (cases ty) (auto simp: open_stream_def has_case_def split: prod.splits if_splits)

lemma open_stream_no_case:
  "\<not> has_case libusb ty \<Longrightarrow> open_stream libusb env ty idx tb w = (Asserted, w, [])"
  by (cases ty) (auto simp: open_stream_def has_case_def)

lemma open_streams_append:
  "open_streams libusb env types tb (xs @ ys) w =
     (case open_streams libusb env types tb xs w of
        (AllOpened, w1, tr) \<Rightarrow>
          (case open_streams libusb env types tb ys w1 of (r, w2, tr') \<Rightarrow> (r, w2, tr @ tr'))
      | other \<Rightarrow> other)"
proof (induction xs arbitrary: w)
  case Nil
  show ?case by (simp split: prod.splits)
next
  case (Cons x xs)
  show ?case
    by (simp add: Cons.IH split: prod.splits open_step.splits opening_outcome.splits)
qed

lemma open_streams_all_opened:
  "open_streams libusb env types tb idxs w = (AllOpened, w1, tr) \<Longrightarrow>
     (\<forall>e\<in>set tr. \<exists>ty idx. e = EvOpen ty idx True) \<and> open_after tr S = S \<union> set idxs"
proof (induction idxs arbitrary: w w1 tr S)
  case Nil
  then show ?case by simp
next
  case (Cons idx rest)
  obtain r w0 tr0 where st: "open_stream libusb env (types idx) idx tb w = (r, w0, tr0)"
    by (cases "open_stream libusb env (types idx) idx tb w")
  obtain r' w' tr' where rec: "open_streams libusb env types tb rest w0 = (r', w', tr')"
    by (cases "open_streams libusb env types tb rest w0")
  from Cons.prems st rec have r: "r = Opened" "r' = AllOpened" "tr = tr0 @ tr'"
    by (auto split: open_step.splits prod.splits)
  with rec have rec': "open_streams libusb env types tb rest w0 = (AllOpened, w', tr')"
    by simp
  from open_stream_cases [OF st] r(1) have tr0: "tr0 = [EvOpen (types idx) idx True]"
    by auto
  from Cons.IH [of w0 w' tr' "insert idx S"] rec'
  show ?case by (auto simp: r(3) tr0)
qed

lemma open_streams_assert:
  "open_streams libusb env types tb idxs w = (AssertFailed, w1, tr) \<Longrightarrow>
     \<exists>idx\<in>set idxs. \<not> has_case libusb (types idx)"
proof (induction idxs arbitrary: w tr)
  case Nil
  then show ?case by simp
next
  case (Cons idx rest)
  obtain r w0 tr0 where st: "open_stream libusb env (types idx) idx tb w = (r, w0, tr0)"
    by (cases "open_stream libusb env (types idx) idx tb w")
  show ?case
  proof (cases r)
    case Opened
    with Cons.prems st obtain tr' where "open_streams libusb env types tb rest w0 = (AssertFailed, w1, tr')"
      by (auto split: prod.splits)
    from Cons.IH [OF this] show ?thesis by auto
  next
    case NotOpened
    with Cons.prems st show ?thesis by (auto split: prod.splits)
  next
    case Asserted
    with open_stream_cases [OF st] show ?thesis by auto
  qed
qed



lemma upt_split_at: "k < n \<Longrightarrow> [0..<n] = [0..<k] @ k # [Suc k..<n]"
proof -
  assume k: "k < n"
  then have "[0..<k + (n - k)] = [0..<k] @ [k..<k + (n - k)]"
    by (intro upt_add_eq_append) simp
  with k show ?thesis by (simp add: upt_conv_Cons)
qed


lemma open_streams_assert_at:
  assumes pre: "open_streams libusb env types tb [0..<k] w = (AllOpened, w1, tr1)"
    and nc: "\<not> has_case libusb (types k)"
    and k: "k < n"
  shows "open_streams libusb env types tb [0..<n] w = (AssertFailed, w1, tr1)"
proof -
  note split = upt_split_at [OF k]
  have "open_streams libusb env types tb (k # [Suc k..<n]) w1 = (AssertFailed, w1, [])"
    by (simp add: open_stream_no_case [OF nc])
  then show ?thesis
    by (simp add: split open_streams_append pre del: open_streams.simps)
qed

lemma tick_fault: "tick_exit (tick env cfg n ls) = Faulted f \<Longrightarrow> f = SignedOverflow"
  by (auto simp: tick_def report_def Let_def split: prod.splits if_splits)

lemma main_loop_fault:
  "main_loop fuel env cfg n ls = Some (Faulted f, ls', tr) \<Longrightarrow> f = SignedOverflow"
  using main_loop_last_tick [of fuel env cfg n ls "Faulted f" ls' tr] tick_fault
  by metis

lemma RunTest_assertion:
  assumes "read_descriptor env w = (testNum, testArg)"
    and "RunTest fuel libusb tn cfg env w = Some (Inl AssertionFailed, w', tr)"
  shows "\<exists>tb. open_streams libusb env (stream_type_of tn cfg testNum testArg) tb
                [0..<unat (nstreams_of tn testNum testArg)] w = (AssertFailed, w', tr)"
  using assms
  by (auto simp: RunTest_def Let_def transfer_bytes_of_def
      split: sum.splits prod.splits opening_outcome.splits option.splits tick_exit.splits
        if_splits
      dest: main_loop_fault)

lemma RunTest_completes:
  assumes "read_descriptor env w = (testNum, testArg)"
    and "transfer_bytes_of (nstreams_of tn testNum testArg) = Inr tb"
    and "open_streams libusb env (stream_type_of tn cfg testNum testArg) tb
           [0..<unat (nstreams_of tn testNum testArg)] w = (AllOpened, w1, tr)"
    and "time_us env w1 = (now, w2)"
    and "main_loop fuel env cfg (unat (nstreams_of tn testNum testArg))
           \<lparr>world = w2, start_time = now, prev_bytes = 0\<rparr> = Some (LoopCondition d, ls, tr')"
  shows "\<exists>w3. RunTest fuel libusb tn cfg env w
           = Some (Inr 0, w3, tr @ tr' @ map EvStop [0..<unat (nstreams_of tn testNum testArg)])"
  using assms by (simp add: RunTest_def Let_def case_prod_beta)

lemma sim_run_completes:
  "map_option fst (RunTest (Suc (Suc 0)) True sim_numbers (sim_cfg False) sim_env
       (sim_world 1 1 StateStreaming 0 1 0 0x1000 0x2000)) = Some (Inr 0)"
proof -
  let ?w = "sim_world 1 1 StateStreaming 0 1 0 0x1000 0x2000"
  let ?a = "sim_testArg ?w"
  have d: "read_descriptor sim_env ?w = (1, ?a)"
    by (simp add: read_descriptor_def sim_defs)
  have n: "nstreams_of sim_numbers 1 ?a = 1"
    by (simp add: nstreams_of_def sim_defs)
  have tb: "transfer_bytes_of (nstreams_of sim_numbers 1 ?a) = Inr 0x1000000"
    unfolding n by (simp add: transfer_bytes_of_def kTransferBytes_def)
  have o: "open_streams True sim_env (stream_type_of sim_numbers (sim_cfg False) 1 ?a)
             0x1000000 [0..<unat (nstreams_of sim_numbers 1 ?a)] ?w
           = (AllOpened, ?w, [EvOpen StreamType_Bulk 0 True])"
    unfolding n by (simp add: open_stream_def stream_type_of_def sim_defs)
  have t: "time_us sim_env ?w = (0, ?w)"
    by (simp add: sim_defs)
  have l: "main_loop (Suc (Suc 0)) sim_env (sim_cfg False) (unat (nstreams_of sim_numbers 1 ?a))
             \<lparr>world = ?w, start_time = 0, prev_bytes = 0\<rparr>
           = Some (LoopCondition True,
         tick_state (tick sim_env (sim_cfg False) 1
           (tick_state (tick sim_env (sim_cfg False) 1 (sim_loop StateStreaming 0 0 0x1000 0x2000)))),
         tick_trace (tick sim_env (sim_cfg False) 1 (sim_loop StateStreaming 0 0 0x1000 0x2000))
           @ tick_trace (tick sim_env (sim_cfg False) 1
               (tick_state (tick sim_env (sim_cfg False) 1 (sim_loop StateStreaming 0 0 0x1000 0x2000)))))"
    unfolding n using sim_two_ticks by (simp add: sim_loop_def del: main_loop.simps One_nat_def)
  from RunTest_completes [OF d tb o t l] show ?thesis
    by auto
qed

subsection \<open>Failure to open a stream\<close>



subsection \<open>The assertion of the stream-opening switch\<close>

text \<open>
  Claim C7. When every stream type that the descriptor yields has a case in the
  stream-opening switch, \<^verbatim>\<open>RunTest\<close> never ends in the assertion of the
  \<^verbatim>\<open>default\<close> branch. When stream \<open>k\<close> is the first whose type has no case and the
  streams before it have been opened, \<^verbatim>\<open>RunTest\<close> ends in that assertion, and all it
  has done until then is to open streams: no stream and no device has been serviced.
\<close>

theorem assertion_only_without_case:
  assumes "read_descriptor env w = (testNum, testArg)"
  shows "((\<forall>idx<unat (nstreams_of tn testNum testArg).
             has_case libusb (stream_type_of tn cfg testNum testArg idx))
          \<longrightarrow> (\<forall>w' tr. RunTest fuel libusb tn cfg env w \<noteq> Some (Inl AssertionFailed, w', tr)))
    \<and> (transfer_bytes_of (nstreams_of tn testNum testArg) = Inr tb
        \<and> k < unat (nstreams_of tn testNum testArg)
        \<and> \<not> has_case libusb (stream_type_of tn cfg testNum testArg k)
        \<and> open_streams libusb env (stream_type_of tn cfg testNum testArg) tb [0..<k] w
             = (AllOpened, w1, tr1)
        \<longrightarrow> RunTest fuel libusb tn cfg env w = Some (Inl AssertionFailed, w1, tr1)
            \<and> (\<forall>e\<in>set tr1. \<exists>ty idx. e = EvOpen ty idx True))"
proof (intro conjI impI allI; (elim conjE)?)
  fix w' tr
  assume all: "\<forall>idx<unat (nstreams_of tn testNum testArg).
             has_case libusb (stream_type_of tn cfg testNum testArg idx)"
  show "RunTest fuel libusb tn cfg env w \<noteq> Some (Inl AssertionFailed, w', tr)"
  proof
    assume "RunTest fuel libusb tn cfg env w = Some (Inl AssertionFailed, w', tr)"
    from RunTest_assertion [OF assms this] obtain tb' where
      "open_streams libusb env (stream_type_of tn cfg testNum testArg) tb'
                [0..<unat (nstreams_of tn testNum testArg)] w = (AssertFailed, w', tr)"
      by blast
    from open_streams_assert [OF this] all show False by auto
  qed
next
  assume tb: "transfer_bytes_of (nstreams_of tn testNum testArg) = Inr tb"
    and k: "k < unat (nstreams_of tn testNum testArg)"
    and nc: "\<not> has_case libusb (stream_type_of tn cfg testNum testArg k)"
    and pre: "open_streams libusb env (stream_type_of tn cfg testNum testArg) tb [0..<k] w
             = (AllOpened, w1, tr1)"
  from open_streams_assert_at [OF pre nc k] assms tb
  show "RunTest fuel libusb tn cfg env w = Some (Inl AssertionFailed, w1, tr1)"
    by (simp add: RunTest_def Let_def)
  from open_streams_all_opened [OF pre, of "{}"]
  show "\<forall>e\<in>set tr1. \<exists>ty idx. e = EvOpen ty idx True"
    by simp
qed

theorem assertion_only_without_case_witness:
  "has_case True (stream_type_of sim_numbers (sim_cfg False) 1 (\<lambda>arg. if arg = 0 then 1 else 0) 0)
   \<and> map_option fst (RunTest (Suc (Suc 0)) True sim_numbers (sim_cfg False) sim_env
         (sim_world 1 1 StateStreaming 0 1 0 0x1000 0x2000)) = Some (Inr 0)
   \<and> \<not> has_case True (stream_type_of sim_numbers (sim_cfg False) 3 (sim_testArg sim_mixed) 1)
   \<and> map_option (\<lambda>(r, w, tr). (r, tr)) (RunTest 5 True sim_numbers (sim_cfg False) sim_env sim_mixed)
       = Some (Inl AssertionFailed, [EvOpen StreamType_Bulk 0 True])"
proof -
  let ?a = "sim_testArg sim_mixed"
  let ?types = "stream_type_of sim_numbers (sim_cfg False) 3 ?a"
  have d: "read_descriptor sim_env sim_mixed = (3, ?a)"
    by (simp add: read_descriptor_def sim_mixed_def sim_defs)
  have n: "nstreams_of sim_numbers 3 ?a = 2"
    by (simp add: nstreams_of_def sim_mixed_def sim_defs)
  have tb: "transfer_bytes_of (nstreams_of sim_numbers 3 ?a) = Inr 0x800000"
    by (simp add: n transfer_bytes_of_def kTransferBytes_def)
  have ty0: "?types 0 = StreamType_Bulk" and ty1: "?types 1 = StreamType_Control"
    by (simp_all add: stream_type_of_def mixed_stream_type_def mixedTypes_of_def sim_mixed_def
        sim_defs)
  have nc: "\<not> has_case True (?types 1)"
    unfolding ty1 by (simp add: has_case_def)
  have pre: "open_streams True sim_env ?types 0x800000 [0..<1] sim_mixed
               = (AllOpened, sim_mixed, [EvOpen StreamType_Bulk 0 True])"
    by (simp add: ty0 open_stream_def sim_env_def) (simp add: sim_mixed_def sim_defs)
  have k: "1 < unat (nstreams_of sim_numbers 3 ?a)"
    by (simp add: n)
  from assertion_only_without_case [OF d, of sim_numbers True "sim_cfg False" 5 "0x800000" 1
      sim_mixed "[EvOpen StreamType_Bulk 0 True]"] tb k nc pre
  have b: "RunTest 5 True sim_numbers (sim_cfg False) sim_env sim_mixed
             = Some (Inl AssertionFailed, sim_mixed, [EvOpen StreamType_Bulk 0 True])"
    by blast
  have a: "has_case True (stream_type_of sim_numbers (sim_cfg False) 1
             (\<lambda>arg. if arg = 0 then 1 else 0) 0)"
    by (simp add: has_case_def stream_type_of_def sim_defs)
  show ?thesis
    using a nc b sim_run_completes
    by (simp add: case_prod_beta option.map_comp comp_def del: One_nat_def)
qed

end
